theory Spec2Isabelle
  imports Main
begin

section \<open>Strings\<close>

text \<open>
  JavaScript strings are modelled as \<^typ>\<open>string\<close> (lists of 8-bit characters).  The case
  conversions and the whitespace test below are the ASCII parts of
  \<^verbatim>\<open>String.prototype.toUpperCase\<close>, \<^verbatim>\<open>toLowerCase\<close> and \<^verbatim>\<open>trimEnd\<close>; characters outside
  ASCII are left as they are.
\<close>

definition upperChar :: "char \<Rightarrow> char" where
  "upperChar c =
     (let n = (of_char c :: nat) in if 97 \<le> n \<and> n \<le> 122 then char_of (n - 32) else c)"

definition lowerChar :: "char \<Rightarrow> char" where
  "lowerChar c =
     (let n = (of_char c :: nat) in if 65 \<le> n \<and> n \<le> 90 then char_of (n + 32) else c)"

definition toUpperCase :: "string \<Rightarrow> string" where
  "toUpperCase s = map upperChar s"

definition toLowerCase :: "string \<Rightarrow> string" where
  "toLowerCase s = map lowerChar s"

definition isWhiteSpace :: "char \<Rightarrow> bool" where
  "isWhiteSpace c = (let n = (of_char c :: nat) in (9 \<le> n \<and> n \<le> 13) \<or> n = 32)"

definition trimEnd :: "string \<Rightarrow> string" where
  "trimEnd s = rev (dropWhile isWhiteSpace (rev s))"

text \<open>Decimal rendering of a number inside a template literal.\<close>

fun digits :: "nat \<Rightarrow> string" where
  "digits n =
     (if n < 10 then [char_of (48 + n)] else digits (n div 10) @ [char_of (48 + n mod 10)])"

declare digits.simps [simp del]

section \<open>The severity scale\<close>

definition LOG_LEVELS :: "string list" where
  "LOG_LEVELS = [''TRACE'', ''SILLY'', ''DEBUG'', ''VERBOSE'', ''INFO'', ''WARN'', ''ERROR'']"

text \<open>\<^verbatim>\<open>Array.prototype.indexOf\<close>: the first position of the element, or \<open>-1\<close>.\<close>

fun indexOf :: "'a list \<Rightarrow> 'a \<Rightarrow> int" where
  "indexOf [] x = -1"
| "indexOf (y # ys) x =
     (if y = x then 0 else (let i = indexOf ys x in if i = -1 then -1 else i + 1))"

section \<open>The logger object\<close>

text \<open>
  The constructor's options \<^verbatim>\<open>opts\<close>, each field named after its key.  Optional options are \<^typ>\<open>string option\<close>; \<open>None\<close> is
  \<^verbatim>\<open>undefined\<close>.  The \<^verbatim>\<open>log\<close> option is not a field: what the logger writes to it is
  an event of the trace.
\<close>

record opts =
  opt_apiKey :: string
  opt_funcName :: string
  opt_service :: string
  opt_version :: "string option"
  opt_logStream :: "string option"
  opt_apiUrl :: "string option"
  opt_level :: "string option"

record baseEntry =
  be_service :: string
  be_ddsource :: string
  be_hostname :: string
  be_ddtags :: "string option"

record logger =
  this_apiKey :: string
  this_functionName :: string
  this_logStream :: "string option"
  this_apiUrl :: string
  this_minLevel :: int
  this_baseEntry :: baseEntry

text \<open>
  Truthiness of an optional string: \<^verbatim>\<open>undefined\<close> and the empty string are falsy.
  \<open>orElse v d\<close> is \<^verbatim>\<open>v || d\<close>.
\<close>

fun truthy :: "string option \<Rightarrow> bool" where
  "truthy None = False"
| "truthy (Some s) = (s \<noteq> [])"

fun orElse :: "string option \<Rightarrow> string \<Rightarrow> string" where
  "orElse None d = d"
| "orElse (Some s) d = (if s \<noteq> [] then s else d)"

definition DataDogLogger :: "opts \<Rightarrow> logger" where
  "DataDogLogger opts =
     (let apiUrl' = (case opt_apiUrl opts of None \<Rightarrow> ''https://http-intake.logs.datadoghq.com''
                     | Some u \<Rightarrow> u);
          level' = (case opt_level opts of None \<Rightarrow> ''info'' | Some l \<Rightarrow> l);
          minLevel = indexOf LOG_LEVELS (toUpperCase level');
          base = \<lparr> be_service = opt_service opts, be_ddsource = ''aws-lambda'',
                   be_hostname = ''lambda'', be_ddtags = None \<rparr>
      in \<lparr> this_apiKey = opt_apiKey opts,
           this_functionName = opt_funcName opts,
           this_logStream = opt_logStream opts,
           this_apiUrl = apiUrl',
           this_minLevel = (if minLevel \<noteq> -1 then minLevel else indexOf LOG_LEVELS ''INFO''),
           this_baseEntry =
             (case opt_version opts of
                Some v \<Rightarrow> if truthy (Some v) then base\<lparr> be_ddtags := Some (''version:'' @ v) \<rparr>
                          else base
              | None \<Rightarrow> base) \<rparr>)"

definition shouldSendLevel :: "logger \<Rightarrow> string \<Rightarrow> bool" where
  "shouldSendLevel this lvl = (indexOf LOG_LEVELS lvl \<ge> this_minLevel this)"

section \<open>Log events and log entries\<close>

text \<open>
  A log event of the subscription batch (\<^verbatim>\<open>LogEvent\<close>), with the extracted fields that
  are present when a filter pattern was configured upstream.
\<close>

record extracted =
  x_event :: string
  x_level :: "string option"
  x_request_id :: "string option"
  x_timestamp :: "string option"

record logEvent =
  ev_id :: "string option"
  ev_timestamp :: int
  ev_message :: "string option"
  ev_extractedFields :: "extracted option"

text \<open>What \<^verbatim>\<open>extractFields\<close> returns for an event it can read.\<close>

record fields =
  f_level :: string
  f_message :: string
  f_requestId :: "string option"
  f_timestamp :: "string option"

text \<open>
  The object \<^verbatim>\<open>text\<close> that \<^verbatim>\<open>createLogEntry\<close> builds and stringifies:
  \<^verbatim>\<open>{ inv: { invocationId, functionName }, message, level, timestamp, logStream }\<close>.
  A key whose value is \<^verbatim>\<open>undefined\<close> (\<open>None\<close>) is left out by \<^verbatim>\<open>JSON.stringify\<close>.
\<close>

record textObject =
  t_invocationId :: string
  t_functionName :: string
  t_message :: string
  t_level :: string
  t_timestamp :: "string option"
  t_logStream :: "string option"

text \<open>\<^verbatim>\<open>DataDogLogEntry\<close>.\<close>

record logEntry =
  timestamp :: int
  message :: string
  level :: string

subsection \<open>\<^verbatim>\<open>JSON.stringify\<close> of the text object\<close>

definition hexDigit :: "nat \<Rightarrow> char" where
  "hexDigit n = (if n < 10 then char_of (48 + n) else char_of (87 + n))"

definition escapeChar :: "char \<Rightarrow> string" where
  "escapeChar c =
     (let n = (of_char c :: nat) in
      if n = 34 then [char_of (92::nat), char_of (34::nat)]
      else if n = 92 then [char_of (92::nat), char_of (92::nat)]
      else if n = 8 then char_of (92::nat) # ''b''
      else if n = 12 then char_of (92::nat) # ''f''
      else if n = 10 then char_of (92::nat) # ''n''
      else if n = 13 then char_of (92::nat) # ''r''
      else if n = 9 then char_of (92::nat) # ''t''
      else if n < 32 then char_of (92::nat) # ''u00'' @ [hexDigit (n div 16), hexDigit (n mod 16)]
      else [c])"

definition quote :: "string \<Rightarrow> string" where
  "quote s = [char_of (34::nat)] @ concat (map escapeChar s) @ [char_of (34::nat)]"

definition key :: "string \<Rightarrow> string" where
  "key k = quote k @ '':''"

definition JSON_stringify :: "textObject \<Rightarrow> string" where
  "JSON_stringify t =
     ''{'' @ key ''inv'' @ ''{'' @ key ''invocationId'' @ quote (t_invocationId t)
       @ '','' @ key ''functionName'' @ quote (t_functionName t) @ ''}''
       @ '','' @ key ''message'' @ quote (t_message t)
       @ '','' @ key ''level'' @ quote (t_level t)
       @ (case t_timestamp t of None \<Rightarrow> [] | Some ts \<Rightarrow> '','' @ key ''timestamp'' @ quote ts)
       @ (case t_logStream t of None \<Rightarrow> [] | Some ls \<Rightarrow> '','' @ key ''logStream'' @ quote ls)
       @ ''}''"

subsection \<open>Effects\<close>

text \<open>
  What the logger does to the outside, in order: a warning written to \<^verbatim>\<open>log\<close>, a request
  handed to \<^verbatim>\<open>fetch\<close>, and a timer wait (milliseconds) between two attempts.  A function with
  effects returns its result and the list of its events.

  A posted entry is \<^verbatim>\<open>{ ...logEntry, ...this._baseEntry }\<close>.  The two objects have no key
  in common, so the merged object is the pair of both.  The body of a request is
  \<^verbatim>\<open>gzip(JSON.stringify(payload))\<close>; the model keeps the payload itself.
\<close>

type_synonym postedEntry = "logEntry \<times> baseEntry"

record request =
  rq_url :: string
  rq_method :: string
  rq_headers :: "(string \<times> string) list"
  rq_body :: "postedEntry list"

datatype event = Warn logEvent | Fetch request | SetTimeout nat

subsection \<open>\<^verbatim>\<open>createLogEntry\<close>\<close>

text \<open>
  \<^verbatim>\<open>extractFields\<close> lives in a module of its own; \<^verbatim>\<open>createLogEntry\<close> takes it as the
  parameter \<open>extractFields\<close>, \<open>None\<close> being its falsy result.
\<close>

definition createLogEntry ::
  "(logEvent \<Rightarrow> fields option) \<Rightarrow> logger \<Rightarrow> logEvent \<Rightarrow> logEntry option \<times> event list" where
  "createLogEntry extractFields this logEvent =
     (case extractFields logEvent of
        None \<Rightarrow> (None, [Warn logEvent])
      | Some fields' \<Rightarrow>
          (let level' = (if indexOf LOG_LEVELS (f_level fields') \<noteq> -1 then f_level fields'
                         else ''INFO'');
               text' = \<lparr> t_invocationId = orElse (f_requestId fields') ''n/a'',
                        t_functionName = this_functionName this,
                        t_message = trimEnd (f_message fields'),
                        t_level = toLowerCase (f_level fields'),
                        t_timestamp = f_timestamp fields',
                        t_logStream = (if truthy (this_logStream this) then this_logStream this
                                       else None) \<rparr>
           in (Some \<lparr> timestamp = ev_timestamp logEvent,
                        message = JSON_stringify text',
                        level = level' \<rparr>, [])))"

section \<open>Delivery with retry\<close>

text \<open>
  Errors: a \<^verbatim>\<open>FetchError\<close> of the fetch library (a transport error), an \<^verbatim>\<open>Error\<close> made
  with \<^verbatim>\<open>new Error(message)\<close>, and any other thrown value, each with its message.
\<close>

datatype error = FetchError string | Error string | OtherError string

fun isFetchError :: "error \<Rightarrow> bool" where
  "isFetchError (FetchError m) = True"
| "isFetchError e = False"

record response =
  status :: nat
  bodyText :: string

definition ok :: "response \<Rightarrow> bool" where
  "ok r = (200 \<le> status r \<and> status r \<le> 299)"

text \<open>How one call of \<^verbatim>\<open>fetch\<close> ends: the promise rejects or resolves.\<close>

datatype outcome = Rejects error | Resolves response

text \<open>
  \<open>MOCHA_ENV\<close> is read from the environment when the module is loaded
  (\<^verbatim>\<open>process.env.HELIX_FETCH_FORCE_HTTP1 === 'true'\<close>); it is the parameter \<open>MOCHA_ENV\<close> of
  the two callbacks.  \<open>retryOn\<close> takes the error and the response as the callback does, one
  of them \<^verbatim>\<open>null\<close>; reading \<^verbatim>\<open>response.ok\<close> of a \<^verbatim>\<open>null\<close> response throws.
\<close>

definition retryDelay :: "bool \<Rightarrow> nat \<Rightarrow> nat" where
  "retryDelay MOCHA_ENV attempt = (if MOCHA_ENV then 1 else 2 ^ attempt * 1000)"

definition retryOn :: "bool \<Rightarrow> nat \<Rightarrow> error option \<Rightarrow> response option \<Rightarrow> error + bool" where
  "retryOn MOCHA_ENV attempt err resp =
     (let retries = (if MOCHA_ENV then 1 else 2 :: nat) in
      case err of
        Some e \<Rightarrow> if isFetchError e then Inr (attempt < retries) else Inl e
      | None \<Rightarrow>
          (case resp of
             None \<Rightarrow> Inl (OtherError ''TypeError'')
           | Some r \<Rightarrow>
               if \<not> ok r
               then Inl (Error (''Failed to send logs with status '' @ digits (status r)
                                 @ '': '' @ bodyText r))
               else Inr False))"

text \<open>
  Modelled from the spec: the retry wrapper \<^verbatim>\<open>wrapFetch\<close> comes from the package
  \<^verbatim>\<open>fetch-retry\<close>, which is not part of the sources.  It is the strictly sequential loop
  (attempt, wait, retry) of the delivery client: attempts are counted from 0; after each
  call of \<^verbatim>\<open>fetch\<close> the callback \<^verbatim>\<open>retryOn\<close> decides; when it throws, the wrapper rejects
  with what it threw; when it says retry, the wrapper waits \<^verbatim>\<open>retryDelay(attempt)\<close>
  milliseconds and makes the next attempt; otherwise the wrapper ends as the call of
  \<^verbatim>\<open>fetch\<close> did.  \<open>net n\<close> is how the \<open>n\<close>-th call of \<^verbatim>\<open>fetch\<close> ends.
\<close>

function wrappedFetch ::
  "bool \<Rightarrow> (nat \<Rightarrow> outcome) \<Rightarrow> request \<Rightarrow> nat \<Rightarrow> (error + response) \<times> event list" where
  "wrappedFetch MOCHA_ENV net req attempt =
     (case net attempt of
        Resolves resp \<Rightarrow>
          (case retryOn MOCHA_ENV attempt None (Some resp) of
             Inl thrown \<Rightarrow> (Inl thrown, [Fetch req])
           | Inr retry \<Rightarrow>
               if retry
               then (let (r, tr) = wrappedFetch MOCHA_ENV net req (Suc attempt)
                     in (r, Fetch req # SetTimeout (retryDelay MOCHA_ENV attempt) # tr))
               else (Inr resp, [Fetch req]))
      | Rejects err \<Rightarrow>
          (case retryOn MOCHA_ENV attempt (Some err) None of
             Inl thrown \<Rightarrow> (Inl thrown, [Fetch req])
           | Inr retry \<Rightarrow>
               if retry
               then (let (r, tr) = wrappedFetch MOCHA_ENV net req (Suc attempt)
                     in (r, Fetch req # SetTimeout (retryDelay MOCHA_ENV attempt) # tr))
               else (Inl err, [Fetch req])))"
  by pat_completeness auto
termination
  by (relation "measure (\<lambda>(m, net, req, attempt). (if m then 1 else 2) - attempt)")
     (auto simp: retryOn_def split: if_splits)

declare wrappedFetch.simps [simp del]

definition fetchRetry :: "bool \<Rightarrow> (nat \<Rightarrow> outcome) \<Rightarrow> request \<Rightarrow> (error + response) \<times> event list" where
  "fetchRetry MOCHA_ENV net req = wrappedFetch MOCHA_ENV net req 0"

definition sendPayload ::
  "bool \<Rightarrow> (nat \<Rightarrow> outcome) \<Rightarrow> logger \<Rightarrow> postedEntry list \<Rightarrow> (error + response) \<times> event list" where
  "sendPayload MOCHA_ENV net this payload =
     (let url = this_apiUrl this @ ''/api/v2/logs'' in
      fetchRetry MOCHA_ENV net
        \<lparr> rq_url = url, rq_method = ''POST'',
          rq_headers = [(''content-type'', ''application/json''),
                        (''content-encoding'', ''gzip''),
                        (''DD-API-KEY'', this_apiKey this)],
          rq_body = payload \<rparr>)"

subsection \<open>\<^verbatim>\<open>sendEntries\<close>\<close>

text \<open>
  The loop over the log events, with the two arrays it fills and the events so far.
\<close>

fun sendEntries_loop ::
  "(logEvent \<Rightarrow> fields option) \<Rightarrow> logger \<Rightarrow> logEvent list \<Rightarrow>
     logEvent list \<Rightarrow> logEntry list \<Rightarrow> event list \<Rightarrow>
     logEvent list \<times> logEntry list \<times> event list" where
  "sendEntries_loop extractFields this [] rejected logEntries tr = (rejected, logEntries, tr)"
| "sendEntries_loop extractFields this (logEvent # rest) rejected logEntries tr =
     (case createLogEntry extractFields this logEvent of
        (None, w) \<Rightarrow>
          sendEntries_loop extractFields this rest (rejected @ [logEvent]) logEntries (tr @ w)
      | (Some logEntry, w) \<Rightarrow>
          if shouldSendLevel this (toUpperCase (level logEntry))
          then sendEntries_loop extractFields this rest rejected (logEntries @ [logEntry]) (tr @ w)
          else sendEntries_loop extractFields this rest rejected logEntries (tr @ w))"

record result =
  rejected :: "logEvent list"
  sent :: nat

definition sendEntries ::
  "(logEvent \<Rightarrow> fields option) \<Rightarrow> bool \<Rightarrow> (nat \<Rightarrow> outcome) \<Rightarrow> logger \<Rightarrow> logEvent list \<Rightarrow>
     (error + result) \<times> event list" where
  "sendEntries extractFields MOCHA_ENV net this logEvents =
     (case sendEntries_loop extractFields this logEvents [] [] [] of
        (rejected', logEntries, tr) \<Rightarrow>
          if logEntries \<noteq> []
          then (case sendPayload MOCHA_ENV net this
                       (map (\<lambda>logEntry. (logEntry, this_baseEntry this)) logEntries) of
                  (Inl err, tr') \<Rightarrow> (Inl err, tr @ tr')
                | (Inr resp, tr') \<Rightarrow>
                    (Inr \<lparr> rejected = rejected', sent = length logEntries \<rparr>, tr @ tr'))
          else (Inr \<lparr> rejected = rejected', sent = length logEntries \<rparr>, tr))"

section \<open>Notions used to state the properties\<close>

text \<open>
  The two tests of the loop of \<^verbatim>\<open>sendEntries\<close>, per event: the entry could not be created;
  the entry was created and its level passes the filter.
\<close>

definition extractionFails :: "(logEvent \<Rightarrow> fields option) \<Rightarrow> logger \<Rightarrow> logEvent \<Rightarrow> bool" where
  "extractionFails extractFields this logEvent =
     (fst (createLogEntry extractFields this logEvent) = None)"

definition passing :: "(logEvent \<Rightarrow> fields option) \<Rightarrow> logger \<Rightarrow> logEvent \<Rightarrow> logEntry option" where
  "passing extractFields this logEvent =
     (case fst (createLogEntry extractFields this logEvent) of
        None \<Rightarrow> None
      | Some logEntry \<Rightarrow>
          if shouldSendLevel this (toUpperCase (level logEntry)) then Some logEntry else None)"

text \<open>
  A call of \<^verbatim>\<open>fetch\<close> fails with a transport error when it rejects with a
  \<^verbatim>\<open>FetchError\<close>; the endpoint accepts the request when the response is a 2xx.
\<close>

fun transportError :: "outcome \<Rightarrow> bool" where
  "transportError (Rejects e) = isFetchError e"
| "transportError (Resolves r) = False"

fun accepted :: "outcome \<Rightarrow> bool" where
  "accepted (Rejects e) = False"
| "accepted (Resolves r) = ok r"

text \<open>The requests of a trace, in order.\<close>

fun requests :: "event list \<Rightarrow> request list" where
  "requests [] = []"
| "requests (Fetch req # es) = req # requests es"
| "requests (e # es) = requests es"

section \<open>Parts modelled from the spec\<close>

subsection \<open>The field extractor\<close>

text \<open>
  Modelled from the spec: \<^verbatim>\<open>extractFields\<close> (module \<^verbatim>\<open>extract-fields.js\<close>) is not part of
  the sources.  The spec's rules: a line that carries no extracted-fields structure cannot be
  classified; an explicit severity field is used, upper-cased, with the event text as the
  message; otherwise a leading token of the event text followed by a tab is the severity
  candidate and the remainder is the message, and an event text with no tab is the message,
  with severity \<open>INFO\<close>; correlation id and origin timestamp are copied through.  The
  theorems about \<open>createLogEntry\<close> and \<open>sendEntries\<close> hold for every extractor; this one is
  the extractor of the examples.
\<close>

definition tab :: char where
  "tab = char_of (9::nat)"

definition newline :: char where
  "newline = char_of (10::nat)"

definition extractFieldsSpec :: "logEvent \<Rightarrow> fields option" where
  "extractFieldsSpec logEvent =
     (case ev_extractedFields logEvent of
        None \<Rightarrow> None
      | Some x \<Rightarrow>
          (case x_level x of
             Some l \<Rightarrow>
               Some \<lparr> f_level = toUpperCase l, f_message = x_event x,
                      f_requestId = x_request_id x, f_timestamp = x_timestamp x \<rparr>
           | None \<Rightarrow>
               if tab \<in> set (x_event x)
               then Some \<lparr> f_level = takeWhile (\<lambda>c. c \<noteq> tab) (x_event x),
                           f_message = drop 1 (dropWhile (\<lambda>c. c \<noteq> tab) (x_event x)),
                           f_requestId = x_request_id x, f_timestamp = x_timestamp x \<rparr>
               else Some \<lparr> f_level = ''INFO'', f_message = x_event x,
                           f_requestId = x_request_id x, f_timestamp = x_timestamp x \<rparr>))"

subsection \<open>The pipeline orchestrator\<close>

text \<open>
  Modelled from the spec: the pipeline orchestrator (module \<^verbatim>\<open>index.js\<close>) is not part of the
  sources.  These are the states Extracting to Done of its state machine, after the logger
  has been built: the lines are partitioned into rejected lines and accepted records and the
  accepted records are filtered (the loop of \<^verbatim>\<open>sendEntries\<close>); the delivery client is called
  with the surviving records and is a no-op on an empty set; on success the rejected lines
  are forwarded to the dead-letter queue, on failure the surviving records in addition to
  the rejected lines, and then the delivery error is raised again; nothing is enqueued when
  the forward set is empty; a failure to enqueue is logged and changes nothing else; a
  successful run reports the two counts.  \<open>enqueue\<close> tells whether the queue takes an
  envelope.
\<close>

datatype deadLetterItem = RejectedLine logEvent | SurvivingRecord logEntry

datatype pipelineEvent = Logger event | DeadLetter "deadLetterItem list" | EnqueueFailed

record report =
  rejectedCount :: nat
  sentCount :: nat

definition deliver ::
  "bool \<Rightarrow> (nat \<Rightarrow> outcome) \<Rightarrow> logger \<Rightarrow> logEntry list \<Rightarrow> (error + unit) \<times> event list" where
  "deliver MOCHA_ENV net this records =
     (if records = [] then (Inr (), [])
      else (case sendPayload MOCHA_ENV net this (map (\<lambda>r. (r, this_baseEntry this)) records) of
              (Inl err, tr) \<Rightarrow> (Inl err, tr)
            | (Inr resp, tr) \<Rightarrow> (Inr (), tr)))"

definition deadLettering ::
  "(deadLetterItem list \<Rightarrow> bool) \<Rightarrow> deadLetterItem list \<Rightarrow> pipelineEvent list" where
  "deadLettering enqueue forward =
     (if forward \<noteq> []
      then DeadLetter forward # (if enqueue forward then [] else [EnqueueFailed])
      else [])"

definition pipeline ::
  "(logEvent \<Rightarrow> fields option) \<Rightarrow> bool \<Rightarrow> (nat \<Rightarrow> outcome) \<Rightarrow> (deadLetterItem list \<Rightarrow> bool) \<Rightarrow>
     logger \<Rightarrow> logEvent list \<Rightarrow> (error + report) \<times> pipelineEvent list" where
  "pipeline extractFields MOCHA_ENV net enqueue this lines =
     (case sendEntries_loop extractFields this lines [] [] [] of
        (rejected', surviving, tr) \<Rightarrow>
          (case deliver MOCHA_ENV net this surviving of
             (Inr u, tr') \<Rightarrow>
               (Inr \<lparr> rejectedCount = length rejected', sentCount = length surviving \<rparr>,
                map Logger (tr @ tr') @ deadLettering enqueue (map RejectedLine rejected'))
           | (Inl err, tr') \<Rightarrow>
               (Inl err,
                map Logger (tr @ tr')
                  @ deadLettering enqueue
                      (map SurvivingRecord surviving @ map RejectedLine rejected'))))"

text \<open>The surviving records of an envelope, in order.\<close>

fun survivingRecords :: "deadLetterItem list \<Rightarrow> logEntry list" where
  "survivingRecords [] = []"
| "survivingRecords (SurvivingRecord r # items) = r # survivingRecords items"
| "survivingRecords (RejectedLine l # items) = survivingRecords items"

subsection \<open>Sample inputs\<close>

text \<open>The options, events and answers of the repository's tests.\<close>

definition eventOf :: "string \<Rightarrow> logEvent" where
  "eventOf text' =
     \<lparr> ev_id = None, ev_timestamp = 1668084827204, ev_message = None,
       ev_extractedFields =
         Some \<lparr> x_event = text', x_level = None, x_request_id = None, x_timestamp = None \<rparr> \<rparr>"

definition bleepEvent :: logEvent where
  "bleepEvent = eventOf (''BLEEP'' @ [tab] @ ''this should end up as INFO message'' @ [newline])"

definition infoEvent :: logEvent where
  "infoEvent = eventOf (''INFO'' @ [tab] @ ''message'' @ [newline])"

definition debugEvent :: logEvent where
  "debugEvent = eventOf (''DEBUG'' @ [tab] @ ''this should not be visible'' @ [newline])"

definition patternlessEvent :: logEvent where
  "patternlessEvent =
     \<lparr> ev_id = None, ev_timestamp = 1668084827204,
       ev_message = Some ''This message has no known pattern and will be discarded'',
       ev_extractedFields = None \<rparr>"

definition forbidden :: "nat \<Rightarrow> outcome" where
  "forbidden n = Resolves \<lparr> status = 403, bodyText = ''that went wrong'' \<rparr>"

definition unreachable :: "nat \<Rightarrow> outcome" where
  "unreachable n = Rejects (FetchError ''that went wrong'')"

definition fine :: "nat \<Rightarrow> outcome" where
  "fine n = Resolves \<lparr> status = 200, bodyText = [] \<rparr>"

definition opts0 :: opts where
  "opts0 = \<lparr> opt_apiKey = ''foo-id'', opt_funcName = ''/services/func/v1'',
     opt_service = ''arn:aws:lambda:us-east-1:123456789012:function:services--func'',
     opt_version = None, opt_logStream = None, opt_apiUrl = None, opt_level = None \<rparr>"

definition request0 :: request where
  "request0 = \<lparr> rq_url = ''https://http-intake.logs.datadoghq.com/api/v2/logs'',
      rq_method = ''POST'', rq_headers = [], rq_body = [] \<rparr>"

definition versioned :: opts where
  "versioned = opts0 \<lparr> opt_version := Some ''1.0.0'' \<rparr>"

section \<open>The severity scale and the threshold\<close>

lemma indexOf_ge: "- 1 \<le> indexOf xs x"
  by (induction xs) (auto simp: Let_def)

lemma indexOf_notin: "indexOf xs x = - 1 \<longleftrightarrow> x \<notin> set xs"
proof (induction xs)
  case Nil
  show ?case by simp
next
  case (Cons y ys)
  have "- 1 \<le> indexOf ys x" by (rule indexOf_ge)
  with Cons show ?case by (auto simp: Let_def)
qed

lemma indexOf_nonneg: "x \<in> set xs \<Longrightarrow> 0 \<le> indexOf xs x"
  using indexOf_ge [of xs x] indexOf_notin [of xs x] by force

lemma indexOf_INFO: "indexOf LOG_LEVELS ''INFO'' = 4"
  by (simp add: LOG_LEVELS_def)

lemma minLevel_eq:
  "this_minLevel (DataDogLogger opts) =
     (let t = toUpperCase (case opt_level opts of None \<Rightarrow> ''info'' | Some l \<Rightarrow> l)
      in if t \<in> set LOG_LEVELS then indexOf LOG_LEVELS t else 4)"
  by (simp add: DataDogLogger_def Let_def indexOf_notin indexOf_INFO)

lemma minLevel_nonneg: "0 \<le> this_minLevel (DataDogLogger opts)"
  by (simp add: minLevel_eq Let_def indexOf_nonneg)

text \<open>
  C10.  A level that is not literally one of the seven upper-case scale values (a lower-case
  spelling of a valid level included) is never sent, whatever threshold the logger was built
  with: its index in the scale is \<open>-1\<close>, which is below every threshold index.
\<close>

theorem shouldSendLevel_off_scale:
  assumes "l \<notin> set LOG_LEVELS"
  shows "indexOf LOG_LEVELS l = - 1
       \<and> indexOf LOG_LEVELS l < this_minLevel (DataDogLogger opts)
       \<and> \<not> shouldSendLevel (DataDogLogger opts) l"
proof -
  from assms have i: "indexOf LOG_LEVELS l = - 1" by (simp add: indexOf_notin)
  have "0 \<le> this_minLevel (DataDogLogger opts)" by (rule minLevel_nonneg)
  with i show ?thesis by (simp add: shouldSendLevel_def)
qed

theorem shouldSendLevel_off_scale_witness:
  "''info'' \<notin> set LOG_LEVELS
   \<and> \<not> shouldSendLevel (DataDogLogger (opts0\<lparr>opt_level := Some ''trace''\<rparr>)) ''info''"
  using shouldSendLevel_off_scale [of "''info''" "opts0\<lparr>opt_level := Some ''trace''\<rparr>"]
  by (simp add: LOG_LEVELS_def)

text \<open>
  C2 (as amended).  The threshold is upper-cased before it is looked up.  The filter passes a
  level \<open>l\<close> exactly when the index of \<open>l\<close> in the scale is at least the index of the
  upper-cased threshold; a threshold whose upper-cased form is not on the scale behaves as
  the threshold \<open>INFO\<close>; a logger built with no threshold uses \<open>info\<close>.
\<close>

theorem severity_filter_ordering:
  "shouldSendLevel (DataDogLogger opts) l \<longleftrightarrow>
     (let t = toUpperCase (case opt_level opts of None \<Rightarrow> ''info'' | Some c \<Rightarrow> c)
      in indexOf LOG_LEVELS l \<ge>
           (if t \<in> set LOG_LEVELS then indexOf LOG_LEVELS t else indexOf LOG_LEVELS ''INFO''))"
  by (simp add: shouldSendLevel_def minLevel_eq Let_def indexOf_INFO)

theorem severity_filter_ordering_witness:
  "\<not> shouldSendLevel (DataDogLogger (opts0\<lparr>opt_level := Some ''warn''\<rparr>)) ''INFO''
   \<and> shouldSendLevel (DataDogLogger (opts0\<lparr>opt_level := Some ''chatty''\<rparr>)) ''INFO''"
proof -
  have w: "toUpperCase ''warn'' = ''WARN''" and c: "toUpperCase ''chatty'' = ''CHATTY''"
    by code_simp+
  show ?thesis
    using severity_filter_ordering [of "opts0\<lparr>opt_level := Some ''warn''\<rparr>" "''INFO''"]
          severity_filter_ordering [of "opts0\<lparr>opt_level := Some ''chatty''\<rparr>" "''INFO''"]
    by (simp add: opts0_def w c LOG_LEVELS_def)
qed

text \<open>
  C2 as stated fails for the threshold \<open>warn\<close>.  The string is not on the scale and its
  index there is \<open>-1\<close>, below the index of \<open>INFO\<close>; yet the level \<open>INFO\<close> is not sent
  under the threshold \<open>warn\<close>, while it is sent under the threshold \<open>INFO\<close>.
\<close>

theorem severity_filter_threshold_counterexample:
  "''warn'' \<notin> set LOG_LEVELS
   \<and> \<not> (shouldSendLevel (DataDogLogger (opts0\<lparr>opt_level := Some ''warn''\<rparr>)) ''INFO''
          \<longleftrightarrow> indexOf LOG_LEVELS ''INFO'' \<ge> indexOf LOG_LEVELS ''warn'')
   \<and> \<not> (shouldSendLevel (DataDogLogger (opts0\<lparr>opt_level := Some ''warn''\<rparr>)) ''INFO''
          \<longleftrightarrow> shouldSendLevel (DataDogLogger (opts0\<lparr>opt_level := Some ''INFO''\<rparr>)) ''INFO'')"
  by code_simp

section \<open>Creating a log entry\<close>

lemma createLogEntry_None:
  "createLogEntry ef this ev = (None, w) \<Longrightarrow> ef ev = None \<and> w = [Warn ev]"
  by (auto simp: createLogEntry_def Let_def split: option.splits)

lemma createLogEntry_Some:
  "createLogEntry ef this ev = (Some e, w) \<Longrightarrow> ef ev \<noteq> None \<and> w = []"
  by (auto simp: createLogEntry_def Let_def split: option.splits)

lemma extractionFails_iff: "extractionFails ef this ev \<longleftrightarrow> ef ev = None"
  by (auto simp: extractionFails_def createLogEntry_def Let_def split: option.splits)

lemma createLogEntry_extracted:
  assumes "extractFields logEvent = Some f"
  shows "createLogEntry extractFields this logEvent =
     (Some \<lparr> timestamp = ev_timestamp logEvent,
             message = JSON_stringify
               \<lparr> t_invocationId = orElse (f_requestId f) ''n/a'',
                 t_functionName = this_functionName this,
                 t_message = trimEnd (f_message f),
                 t_level = toLowerCase (f_level f),
                 t_timestamp = f_timestamp f,
                 t_logStream = (if truthy (this_logStream this) then this_logStream this
                                else None) \<rparr>,
             level = (if f_level f \<in> set LOG_LEVELS then f_level f else ''INFO'') \<rparr>, [])"
  using assms by (simp add: createLogEntry_def Let_def indexOf_notin)

lemma JSON_stringify_level:
  "\<exists>pre post. JSON_stringify t = pre @ key ''level'' @ quote (t_level t) @ post"
proof -
  let ?pre = "''{'' @ key ''inv'' @ ''{'' @ key ''invocationId'' @ quote (t_invocationId t)
       @ '','' @ key ''functionName'' @ quote (t_functionName t) @ ''}''
       @ '','' @ key ''message'' @ quote (t_message t) @ '',''"
  let ?post = "(case t_timestamp t of None \<Rightarrow> [] | Some ts \<Rightarrow> '','' @ key ''timestamp'' @ quote ts)
       @ (case t_logStream t of None \<Rightarrow> [] | Some ls \<Rightarrow> '','' @ key ''logStream'' @ quote ls)
       @ ''}''"
  have "JSON_stringify t = ?pre @ key ''level'' @ quote (t_level t) @ ?post"
    by (simp add: JSON_stringify_def)
  then show ?thesis by blast
qed

text \<open>
  C5.  When the severity candidate that \<^verbatim>\<open>extractFields\<close> returns is not one of the scale
  values, the entry is created, its level is exactly \<open>INFO\<close>, and its message is the
  stringified text object whose \<open>level\<close> field is the candidate in lower case: the message
  contains \<^verbatim>\<open>"level":\<close> followed by the quoted lower-cased candidate.
\<close>

theorem unknown_severity_handling:
  assumes "extractFields logEvent = Some f" and "f_level f \<notin> set LOG_LEVELS"
  shows "\<exists>entry t pre post.
           createLogEntry extractFields this logEvent = (Some entry, [])
         \<and> level entry = ''INFO''
         \<and> message entry = JSON_stringify t
         \<and> t_level t = toLowerCase (f_level f)
         \<and> message entry = pre @ key ''level'' @ quote (toLowerCase (f_level f)) @ post"
proof -
  let ?t = "\<lparr> t_invocationId = orElse (f_requestId f) ''n/a'',
             t_functionName = this_functionName this,
             t_message = trimEnd (f_message f),
             t_level = toLowerCase (f_level f),
             t_timestamp = f_timestamp f,
             t_logStream = (if truthy (this_logStream this) then this_logStream this
                            else None) \<rparr>"
  let ?entry = "\<lparr> timestamp = ev_timestamp logEvent, message = JSON_stringify ?t,
                 level = ''INFO'' \<rparr>"
  have c: "createLogEntry extractFields this logEvent = (Some ?entry, [])"
    using assms by (simp add: createLogEntry_extracted)
  obtain pre post where "JSON_stringify ?t = pre @ key ''level'' @ quote (t_level ?t) @ post"
    using JSON_stringify_level by blast
  then have "message ?entry = pre @ key ''level'' @ quote (toLowerCase (f_level f)) @ post"
    by simp
  with c show ?thesis
    by (intro exI [of _ ?entry] exI [of _ ?t] exI [of _ pre] exI [of _ post]) simp
qed

theorem unknown_severity_handling_witness:
  "\<exists>entry t pre post.
      createLogEntry extractFieldsSpec (DataDogLogger opts0) bleepEvent = (Some entry, [])
    \<and> level entry = ''INFO''
    \<and> message entry = JSON_stringify t
    \<and> t_level t = ''bleep''
    \<and> message entry = pre @ key ''level'' @ quote ''bleep'' @ post"
proof -
  have x: "extractFieldsSpec bleepEvent =
      Some \<lparr> f_level = ''BLEEP'',
             f_message = ''this should end up as INFO message'' @ [newline],
             f_requestId = None, f_timestamp = None \<rparr>"
    by code_simp
  have l: "''BLEEP'' \<notin> set LOG_LEVELS" by (simp add: LOG_LEVELS_def)
  have lc: "toLowerCase ''BLEEP'' = ''bleep''" by code_simp
  show ?thesis
    using unknown_severity_handling
            [of extractFieldsSpec bleepEvent
                "\<lparr> f_level = ''BLEEP'',
                   f_message = ''this should end up as INFO message'' @ [newline],
                   f_requestId = None, f_timestamp = None \<rparr>"
                "DataDogLogger opts0"]
          x l
    by (simp add: lc)
qed

section \<open>The retry loop\<close>

lemma retryOn_transport:
  "isFetchError e \<Longrightarrow> retryOn m a (Some e) None = Inr (a < (if m then 1 else 2))"
  by (simp add: retryOn_def)

lemma wrappedFetch_stop_error:
  assumes "net a = Rejects e" and "isFetchError e" and "a = (if m then 1 else 2)"
  shows "wrappedFetch m net req a = (Inl e, [Fetch req])"
  using assms by (subst wrappedFetch.simps) (simp add: retryOn_transport)

lemma wrappedFetch_stop_ok:
  assumes "net a = Resolves r" and "ok r"
  shows "wrappedFetch m net req a = (Inr r, [Fetch req])"
  using assms by (subst wrappedFetch.simps) (simp add: retryOn_def)

lemma wrappedFetch_stop_rejected:
  assumes "net a = Resolves r" and "\<not> ok r"
  shows "wrappedFetch m net req a =
     (Inl (Error (''Failed to send logs with status '' @ digits (status r) @ '': '' @ bodyText r)),
      [Fetch req])"
  using assms by (subst wrappedFetch.simps) (simp add: retryOn_def)

lemma wrappedFetch_retry_step:
  assumes "transportError (net a)" and "a < (if m then 1 else 2)"
  shows "wrappedFetch m net req a =
     (fst (wrappedFetch m net req (Suc a)),
      Fetch req # SetTimeout (retryDelay m a) # snd (wrappedFetch m net req (Suc a)))"
proof -
  from assms(1) obtain e where e: "net a = Rejects e" "isFetchError e"
    by (cases "net a") auto
  with assms(2) have "retryOn m a (Some e) None = Inr True"
    by (simp add: retryOn_transport)
  with e show ?thesis
    by (subst wrappedFetch.simps) (simp add: split_beta)
qed

lemma wrappedFetch_run:
  assumes "\<forall>j. a \<le> j \<and> j < k \<longrightarrow> transportError (net j)"
      and "a \<le> k" and "k \<le> (if m then 1 else 2)"
      and "wrappedFetch m net req k = (res, [Fetch req])"
  shows "wrappedFetch m net req a =
     (res, concat (map (\<lambda>n. [Fetch req, SetTimeout (retryDelay m n)]) [a..<k]) @ [Fetch req])"
  using assms
proof (induction "k - a" arbitrary: a)
  case 0
  then have "a = k" by simp
  with 0 show ?case by simp
next
  case (Suc d)
  then have lt: "a < k" by simp
  with Suc.prems have te: "transportError (net a)" and ab: "a < (if m then 1 else 2)"
    by (auto split: if_splits)
  have ih: "wrappedFetch m net req (Suc a) =
     (res, concat (map (\<lambda>n. [Fetch req, SetTimeout (retryDelay m n)]) [Suc a..<k]) @ [Fetch req])"
    using Suc.hyps Suc.prems lt by (intro Suc.hyps(1)) auto
  have step: "wrappedFetch m net req a =
     (fst (wrappedFetch m net req (Suc a)),
      Fetch req # SetTimeout (retryDelay m a) # snd (wrappedFetch m net req (Suc a)))"
    using te ab by (rule wrappedFetch_retry_step)
  show ?case
    using lt by (simp add: step ih upt_conv_Cons)
qed

lemma wrappedFetch_trace:
  "e \<in> set (snd (wrappedFetch m net req a)) \<Longrightarrow> e = Fetch req \<or> (\<exists>d. e = SetTimeout d)"
proof (induction m net req a rule: wrappedFetch.induct)
  case (1 m net req a)
  show ?case using "1.prems" "1.IH"
    apply (subst (asm) wrappedFetch.simps)
    apply (auto split: outcome.splits sum.splits if_splits prod.splits)
    done
qed

lemma wrappedFetch_last:
  "\<exists>tr. snd (wrappedFetch m net req a) = tr @ [Fetch req]"
proof (induction m net req a rule: wrappedFetch.induct)
  case (1 m net req a)
  show ?case using "1.IH"
    apply (subst wrappedFetch.simps)
    apply (auto split: outcome.splits sum.splits if_splits prod.splits)
     apply (metis append_Cons)+
    done
qed

text \<open>
  C3 (as amended).  Let the bound be 2 retries, or 1 retry when \<open>MOCHA_ENV\<close> is set.  When
  the attempts \<open>0, \<dots>, k - 1\<close> fail with a transport error, \<open>k\<close> is within the bound, and
  attempt \<open>k\<close> either is accepted or is the last attempt the bound allows and fails with a
  transport error too, then the client makes exactly the attempts \<open>0, \<dots>, k\<close>, waits after
  the failed attempt \<open>n\<close> for \<open>2 ^ n\<close> seconds (1 s, then 2 s), or for 1 millisecond when
  \<open>MOCHA_ENV\<close> is set, and ends as attempt \<open>k\<close> did: with the response, or by raising the
  last transport error.
\<close>

theorem delivery_retry_policy:
  assumes "\<forall>j<k. transportError (net j)"
      and "k \<le> (if MOCHA_ENV then 1 else 2)"
      and "k = (if MOCHA_ENV then 1 else 2) \<and> transportError (net k) \<or> accepted (net k)"
  shows "fetchRetry MOCHA_ENV net req =
     ((case net k of Rejects e \<Rightarrow> Inl e | Resolves r \<Rightarrow> Inr r),
      concat (map (\<lambda>n. [Fetch req, SetTimeout (if MOCHA_ENV then 1 else 2 ^ n * 1000)]) [0..<k])
        @ [Fetch req])"
proof -
  have stop: "wrappedFetch MOCHA_ENV net req k =
      ((case net k of Rejects e \<Rightarrow> Inl e | Resolves r \<Rightarrow> Inr r), [Fetch req])"
  proof (cases "net k")
    case (Rejects e)
    with assms(3) have "isFetchError e" and "k = (if MOCHA_ENV then 1 else 2)" by auto
    with Rejects show ?thesis by (simp add: wrappedFetch_stop_error)
  next
    case (Resolves r)
    with assms(3) have "ok r" by auto
    with Resolves show ?thesis by (simp add: wrappedFetch_stop_ok)
  qed
  have "wrappedFetch MOCHA_ENV net req 0 =
     ((case net k of Rejects e \<Rightarrow> Inl e | Resolves r \<Rightarrow> Inr r),
      concat (map (\<lambda>n. [Fetch req, SetTimeout (retryDelay MOCHA_ENV n)]) [0..<k]) @ [Fetch req])"
    using assms(1,2) stop by (intro wrappedFetch_run) auto
  then show ?thesis by (simp add: fetchRetry_def retryDelay_def)
qed

theorem delivery_retry_policy_witness:
  "fetchRetry False unreachable request0 =
     (Inl (FetchError ''that went wrong''),
      [Fetch request0, SetTimeout 1000, Fetch request0, SetTimeout 2000, Fetch request0])"
  using delivery_retry_policy [of 2 unreachable False request0]
  by (simp add: upt_rec unreachable_def)

text \<open>
  C3 as stated fails when \<open>MOCHA_ENV\<close> is set: the client waits 1 millisecond, not 1 second,
  after the first failed attempt, and gives up after one retry.
\<close>

theorem delivery_retry_delay_counterexample:
  "fetchRetry True unreachable request0 =
     (Inl (FetchError ''that went wrong''), [Fetch request0, SetTimeout 1, Fetch request0])
   \<and> SetTimeout (2 ^ 0 * 1000) \<notin> set (snd (fetchRetry True unreachable request0))"
  by code_simp

text \<open>
  C4.  When the attempts before attempt \<open>k\<close> failed with transport errors and attempt \<open>k\<close>,
  within the bound, gets a response that is not a 2xx, the client raises at once: the
  request of attempt \<open>k\<close> is the last event, with no wait and no further attempt after it,
  and the message of the error holds the status code and the body text of the response.
\<close>

theorem nonretryable_rejection:
  assumes "\<forall>j<k. transportError (net j)"
      and "k \<le> (if MOCHA_ENV then 1 else 2)"
      and "net k = Resolves resp" and "\<not> ok resp"
  shows "fetchRetry MOCHA_ENV net req =
     (Inl (Error (''Failed to send logs with status '' @ digits (status resp) @ '': ''
                   @ bodyText resp)),
      concat (map (\<lambda>n. [Fetch req, SetTimeout (retryDelay MOCHA_ENV n)]) [0..<k]) @ [Fetch req])"
proof -
  have "wrappedFetch MOCHA_ENV net req k =
     (Inl (Error (''Failed to send logs with status '' @ digits (status resp) @ '': ''
                   @ bodyText resp)), [Fetch req])"
    using assms(3,4) by (rule wrappedFetch_stop_rejected)
  with assms(1,2) show ?thesis
    unfolding fetchRetry_def by (intro wrappedFetch_run) auto
qed

theorem nonretryable_rejection_witness:
  "fetchRetry False forbidden request0 =
     (Inl (Error ''Failed to send logs with status 403: that went wrong''), [Fetch request0])"
proof -
  have d: "digits 403 = ''403''" by code_simp
  have n: "\<not> ok \<lparr> status = 403, bodyText = ''that went wrong'' \<rparr>" by (simp add: ok_def)
  show ?thesis
    using nonretryable_rejection [of 0 forbidden False "\<lparr> status = 403, bodyText = ''that went wrong'' \<rparr>" request0] n
    by (simp add: forbidden_def d)
qed

section \<open>\<^verbatim>\<open>sendEntries\<close>\<close>

lemma requests_append: "requests (xs @ ys) = requests xs @ requests ys"
  by (induction xs rule: requests.induct) auto

lemma requests_Warn: "requests (map Warn evs) = []"
  by (induction evs) auto

lemma requests_mem: "req \<in> set (requests tr) \<longleftrightarrow> Fetch req \<in> set tr"
  by (induction tr rule: requests.induct) auto

lemma sendEntries_loop_eq:
  "sendEntries_loop ef this evs rej ents tr =
     (rej @ filter (extractionFails ef this) evs,
      ents @ List.map_filter (passing ef this) evs,
      tr @ map Warn (filter (extractionFails ef this) evs))"
proof (induction evs arbitrary: rej ents tr)
  case Nil
  show ?case by (simp add: List.map_filter_simps)
next
  case (Cons ev evs)
  obtain r w where c: "createLogEntry ef this ev = (r, w)" by (cases "createLogEntry ef this ev")
  show ?case
  proof (cases r)
    case None
    with c have "w = [Warn ev]" by (simp add: createLogEntry_None)
    with c None show ?thesis
      by (simp add: Cons.IH extractionFails_def passing_def List.map_filter_simps)
  next
    case (Some e)
    with c have "w = []" by (simp add: createLogEntry_Some)
    with c Some show ?thesis
      by (simp add: Cons.IH extractionFails_def passing_def List.map_filter_simps)
  qed
qed

lemma sendEntries_cases:
  "sendEntries ef m net this evs =
     (let rej = filter (extractionFails ef this) evs;
          kept = List.map_filter (passing ef this) evs;
          tr = map Warn rej
      in if kept \<noteq> []
         then (case sendPayload m net this (map (\<lambda>e. (e, this_baseEntry this)) kept) of
                 (Inl err, tr') \<Rightarrow> (Inl err, tr @ tr')
               | (Inr resp, tr') \<Rightarrow> (Inr \<lparr> rejected = rej, sent = length kept \<rparr>, tr @ tr'))
         else (Inr \<lparr> rejected = rej, sent = length kept \<rparr>, tr))"
  by (simp add: sendEntries_def sendEntries_loop_eq Let_def)

lemma sendPayload_trace:
  "e \<in> set (snd (sendPayload m net this payload)) \<Longrightarrow>
     (\<exists>req. e = Fetch req \<and> rq_body req = payload) \<or> (\<exists>d. e = SetTimeout d)"
  unfolding sendPayload_def fetchRetry_def Let_def
  by (drule wrappedFetch_trace) auto

lemma sendPayload_last:
  "\<exists>tr req. snd (sendPayload m net this payload) = tr @ [Fetch req] \<and> rq_body req = payload"
  unfolding sendPayload_def fetchRetry_def Let_def
  using wrappedFetch_last by (metis request.select_convs(4))

lemma sendEntries_trace:
  assumes "Fetch req \<in> set (snd (sendEntries ef m net this evs))"
  shows "rq_body req = map (\<lambda>e. (e, this_baseEntry this)) (List.map_filter (passing ef this) evs)"
proof -
  let ?kept = "List.map_filter (passing ef this) evs"
  let ?payload = "map (\<lambda>e. (e, this_baseEntry this)) ?kept"
  obtain res tr' where sp: "sendPayload m net this ?payload = (res, tr')"
    by (cases "sendPayload m net this ?payload")
  from assms have "Fetch req \<in> set tr'"
    by (auto simp: sendEntries_cases Let_def sp split: if_splits sum.splits)
  then have "Fetch req \<in> set (snd (sendPayload m net this ?payload))" by (simp add: sp)
  from sendPayload_trace [OF this] show ?thesis by auto
qed

lemma partition_length:
  "length (filter (extractionFails ef this) evs)
     + length (List.map_filter (passing ef this) evs)
     + length (filter (\<lambda>ev. \<not> extractionFails ef this ev \<and> passing ef this ev = None) evs)
   = length evs"
  by (induction evs)
     (auto simp: List.map_filter_simps extractionFails_def passing_def split: option.splits)

text \<open>
  C9.  The loop of \<^verbatim>\<open>sendEntries\<close> puts every event into exactly one of three classes:
  rejected (no entry could be created), kept (the entry passes the filter) and dropped.  A
  rejected event is never kept, and the three classes add up to the input.  Every request of the invocation carries the kept
  entries, in input order, each merged with the base entry, and there is a request when
  an entry was kept.  A result that is returned holds the rejected events in input order, and
  its sent count is the number of kept entries.
\<close>

theorem partition_invariant:
  fixes extractFields this logEvents
  defines "rej \<equiv> filter (extractionFails extractFields this) logEvents"
      and "kept \<equiv> List.map_filter (passing extractFields this) logEvents"
      and "dropped \<equiv> filter (\<lambda>logEvent. \<not> extractionFails extractFields this logEvent
                                        \<and> passing extractFields this logEvent = None) logEvents"
  assumes "sendEntries extractFields MOCHA_ENV net this logEvents = (res, tr)"
  shows "length rej + length kept + length dropped = length logEvents
       \<and> (\<forall>logEvent. extractionFails extractFields this logEvent
                     \<longrightarrow> passing extractFields this logEvent = None)
       \<and> (\<forall>req. Fetch req \<in> set tr \<longrightarrow> rq_body req = map (\<lambda>e. (e, this_baseEntry this)) kept)
       \<and> (kept \<noteq> [] \<longrightarrow> requests tr \<noteq> [])
       \<and> (\<forall>r. res = Inr r \<longrightarrow> rejected r = rej \<and> sent r = length kept)"
proof -
  have 1: "length rej + length kept + length dropped = length logEvents"
    unfolding assms(1-3) by (rule partition_length)
  have 2: "\<forall>req. Fetch req \<in> set tr \<longrightarrow> rq_body req = map (\<lambda>e. (e, this_baseEntry this)) kept"
    using sendEntries_trace [of _ extractFields MOCHA_ENV net this logEvents] assms(2,4) by simp
  let ?payload = "map (\<lambda>e. (e, this_baseEntry this))
                      (List.map_filter (passing extractFields this) logEvents)"
  obtain res' tr' where sp: "sendPayload MOCHA_ENV net this ?payload = (res', tr')"
    by (cases "sendPayload MOCHA_ENV net this ?payload")
  obtain pre req where l: "tr' = pre @ [Fetch req]"
    using sendPayload_last [of MOCHA_ENV net this ?payload] by (auto simp: sp)
  have 3: "kept \<noteq> [] \<longrightarrow> requests tr \<noteq> []"
  proof
    assume "kept \<noteq> []"
    with assms(4) have "tr = map Warn rej @ tr'"
      by (auto simp: sendEntries_cases Let_def sp assms(1,2) split: sum.splits)
    then show "requests tr \<noteq> []" by (simp add: l requests_append)
  qed
  have 4: "\<forall>r. res = Inr r \<longrightarrow> rejected r = rej \<and> sent r = length kept"
    using assms(4)
    by (auto simp: sendEntries_cases Let_def sp assms(1,2) split: sum.splits if_splits)
  have 5: "\<forall>logEvent. extractionFails extractFields this logEvent
                     \<longrightarrow> passing extractFields this logEvent = None"
    by (simp add: extractionFails_def passing_def)
  from 1 2 3 4 5 show ?thesis by blast
qed

theorem partition_invariant_witness:
  "length (filter (extractionFails extractFieldsSpec (DataDogLogger opts0)) [infoEvent, patternlessEvent, debugEvent]) = 1
   \<and> length (List.map_filter (passing extractFieldsSpec (DataDogLogger opts0)) [infoEvent, patternlessEvent, debugEvent]) = 1
   \<and> length (filter (\<lambda>logEvent. \<not> extractionFails extractFieldsSpec (DataDogLogger opts0) logEvent
                       \<and> passing extractFieldsSpec (DataDogLogger opts0) logEvent = None) [infoEvent, patternlessEvent, debugEvent]) = 1
   \<and> fst (sendEntries extractFieldsSpec False fine (DataDogLogger opts0) [infoEvent, patternlessEvent, debugEvent])
       = Inr \<lparr> rejected = [patternlessEvent], sent = 1 \<rparr>
   \<and> requests (snd (sendEntries extractFieldsSpec False fine (DataDogLogger opts0) [infoEvent, patternlessEvent, debugEvent])) \<noteq> []"
proof -
  let ?evs = "[infoEvent, patternlessEvent, debugEvent]"
  let ?run = "sendEntries extractFieldsSpec False fine (DataDogLogger opts0) ?evs"
  have r: "filter (extractionFails extractFieldsSpec (DataDogLogger opts0)) ?evs = [patternlessEvent]"
    by code_simp
  have k: "length (List.map_filter (passing extractFieldsSpec (DataDogLogger opts0)) ?evs) = 1"
    by code_simp
  have d: "length (filter (\<lambda>logEvent. \<not> extractionFails extractFieldsSpec (DataDogLogger opts0) logEvent
                       \<and> passing extractFieldsSpec (DataDogLogger opts0) logEvent = None) ?evs) = 1"
    by code_simp
  have f: "fst ?run = Inr \<lparr> rejected = [patternlessEvent], sent = 1 \<rparr>" by code_simp
  have "?run = (fst ?run, snd ?run)" by simp
  from partition_invariant [OF this] r k d f show ?thesis by auto
qed

text \<open>
  C6.  When the loop leaves no entry to send, \<^verbatim>\<open>sendEntries\<close> returns the rejected events
  and the count 0, and its trace holds the warnings for the rejected events and nothing else:
  no request to the intake endpoint and no wait.
\<close>

theorem empty_set_noop:
  assumes "sendEntries_loop extractFields this logEvents [] [] [] = (rej, [], tr)"
  shows "sendEntries extractFields MOCHA_ENV net this logEvents =
           (Inr \<lparr> rejected = rej, sent = 0 \<rparr>, tr)
         \<and> tr = map Warn rej
         \<and> requests tr = []"
proof -
  from assms have tr: "tr = map Warn rej"
    by (auto simp: sendEntries_loop_eq)
  then have "requests tr = []" by (simp add: requests_Warn)
  with assms tr show ?thesis by (simp add: sendEntries_def)
qed

theorem empty_set_noop_witness:
  "sendEntries extractFieldsSpec False unreachable (DataDogLogger opts0) [debugEvent] =
     (Inr \<lparr> rejected = [], sent = 0 \<rparr>, [])"
proof -
  have "sendEntries_loop extractFieldsSpec (DataDogLogger opts0) [debugEvent] [] [] [] = ([], [], [])"
    by code_simp
  from empty_set_noop [OF this, of False unreachable] show ?thesis by simp
qed

lemma baseEntry_eq:
  "this_baseEntry (DataDogLogger opts) =
     \<lparr> be_service = opt_service opts, be_ddsource = ''aws-lambda'', be_hostname = ''lambda'',
       be_ddtags = (case opt_version opts of None \<Rightarrow> None
                    | Some v \<Rightarrow> if v = [] then None else Some (''version:'' @ v)) \<rparr>"
  by (simp add: DataDogLogger_def Let_def split: option.splits)

text \<open>
  C7.  Every entry of every request that \<^verbatim>\<open>sendEntries\<close> posts carries the service string
  of the options, \<open>ddsource = aws-lambda\<close> and \<open>hostname = lambda\<close>; it carries
  \<open>ddtags = version:v\<close> when the options hold the version \<open>v\<close> (a non-empty string), and no
  \<open>ddtags\<close> when they hold no version.
\<close>

theorem outbound_entry_shape:
  assumes "Fetch req \<in> set (snd (sendEntries extractFields MOCHA_ENV net (DataDogLogger opts) logEvents))"
      and "entry \<in> set (rq_body req)"
  shows "be_service (snd entry) = opt_service opts
       \<and> be_ddsource (snd entry) = ''aws-lambda''
       \<and> be_hostname (snd entry) = ''lambda''
       \<and> be_ddtags (snd entry) =
           (case opt_version opts of None \<Rightarrow> None
            | Some v \<Rightarrow> if v = [] then None else Some (''version:'' @ v))"
proof -
  from assms have "snd entry = this_baseEntry (DataDogLogger opts)"
    by (auto simp: sendEntries_trace [OF assms(1)])
  then show ?thesis by (simp add: baseEntry_eq)
qed

theorem outbound_entry_shape_witness:
  "be_service (snd (hd (rq_body (hd (requests (snd (sendEntries extractFieldsSpec False fine (DataDogLogger versioned) [infoEvent]))))))) = ''arn:aws:lambda:us-east-1:123456789012:function:services--func''
  \<and> be_ddsource (snd (hd (rq_body (hd (requests (snd (sendEntries extractFieldsSpec False fine (DataDogLogger versioned) [infoEvent]))))))) = ''aws-lambda''
  \<and> be_hostname (snd (hd (rq_body (hd (requests (snd (sendEntries extractFieldsSpec False fine (DataDogLogger versioned) [infoEvent]))))))) = ''lambda''
  \<and> be_ddtags (snd (hd (rq_body (hd (requests (snd (sendEntries extractFieldsSpec False fine (DataDogLogger versioned) [infoEvent]))))))) = Some ''version:1.0.0''"
proof -
  let ?tr = "snd (sendEntries extractFieldsSpec False fine (DataDogLogger versioned) [infoEvent])"
  have 1: "Fetch (hd (requests ?tr)) \<in> set ?tr" by code_simp
  have 2: "hd (rq_body (hd (requests ?tr))) \<in> set (rq_body (hd (requests ?tr)))" by code_simp
  have v: "opt_service versioned = ''arn:aws:lambda:us-east-1:123456789012:function:services--func''"
    "opt_version versioned = Some ''1.0.0''"
    by (simp_all add: versioned_def opts0_def)
  show ?thesis
    using outbound_entry_shape [OF 1 2] by (simp add: v)
qed

text \<open>
  C8.  When \<^verbatim>\<open>sendEntries\<close> completes, its result tells the caller how many lines were
  rejected (it holds the lines themselves, as many as there are events that could not be
  extracted) and how many records were sent: the number of entries of the last request, or 0
  when no request was made.
\<close>

theorem completion_report:
  assumes "sendEntries extractFields MOCHA_ENV net this logEvents = (Inr r, tr)"
  shows "length (rejected r) = length (filter (\<lambda>logEvent. extractFields logEvent = None) logEvents)
       \<and> sent r = (if requests tr = [] then 0 else length (rq_body (last (requests tr))))"
proof -
  let ?kept = "List.map_filter (passing extractFields this) logEvents"
  let ?payload = "map (\<lambda>e. (e, this_baseEntry this)) ?kept"
  let ?rej = "filter (extractionFails extractFields this) logEvents"
  have rej: "?rej = filter (\<lambda>logEvent. extractFields logEvent = None) logEvents"
    by (rule filter_cong) (simp_all add: extractionFails_iff)
  obtain res tr' where sp: "sendPayload MOCHA_ENV net this ?payload = (res, tr')"
    by (cases "sendPayload MOCHA_ENV net this ?payload")
  obtain pre req where l: "tr' = pre @ [Fetch req]" "rq_body req = ?payload"
    using sendPayload_last [of MOCHA_ENV net this ?payload] by (auto simp: sp)
  show ?thesis
  proof (cases "?kept = []")
    case True
    with assms have "r = \<lparr> rejected = ?rej, sent = 0 \<rparr>" "tr = map Warn ?rej"
      by (auto simp: sendEntries_cases Let_def)
    then show ?thesis by (simp add: requests_Warn rej)
  next
    case False
    with assms have r: "r = \<lparr> rejected = ?rej, sent = length ?kept \<rparr>" and tr: "tr = map Warn ?rej @ tr'"
      by (auto simp: sendEntries_cases Let_def sp split: sum.splits)
    have "requests tr = requests pre @ [req]"
      by (simp add: tr l requests_append requests_Warn)
    then show ?thesis by (simp add: r l rej)
  qed
qed

theorem completion_report_witness:
  "fst (sendEntries extractFieldsSpec False fine (DataDogLogger opts0) [infoEvent, patternlessEvent, debugEvent])
     = Inr \<lparr> rejected = [patternlessEvent], sent = 1 \<rparr>
   \<and> length (filter (\<lambda>logEvent. extractFieldsSpec logEvent = None) [infoEvent, patternlessEvent, debugEvent]) = 1
   \<and> length (rq_body (last (requests (snd (sendEntries extractFieldsSpec False fine (DataDogLogger opts0) [infoEvent, patternlessEvent, debugEvent]))))) = 1"
proof -
  let ?run = "sendEntries extractFieldsSpec False fine (DataDogLogger opts0) [infoEvent, patternlessEvent, debugEvent]"
  have f: "fst ?run = Inr \<lparr> rejected = [patternlessEvent], sent = 1 \<rparr>" by code_simp
  have n: "requests (snd ?run) \<noteq> []" by code_simp
  have "?run = (Inr \<lparr> rejected = [patternlessEvent], sent = 1 \<rparr>, snd ?run)"
    using f by (metis prod.collapse)
  from completion_report [OF this] f n show ?thesis by simp
qed

section \<open>The dead-letter protocol\<close>

lemma deliver_nonempty: "deliver m net this records = (Inl err, tr) \<Longrightarrow> records \<noteq> []"
  by (auto simp: deliver_def)

lemma survivingRecords_append:
  "survivingRecords (xs @ ys) = survivingRecords xs @ survivingRecords ys"
  by (induction xs rule: survivingRecords.induct) auto

lemma survivingRecords_map [simp]:
  "survivingRecords (map SurvivingRecord rs) = rs" "survivingRecords (map RejectedLine ls) = []"
  by (induction rs, auto)(induction ls, auto)

text \<open>
  C1.  When the delivery of the \<open>N\<close> surviving records raises, \<open>N\<close> is not 0, the pipeline
  forwards one envelope to the dead-letter queue after the events of the delivery, the
  surviving records of the envelope are exactly those \<open>N\<close> records, and the pipeline ends
  with the error the delivery raised, whether or not the queue took the envelope.
\<close>

theorem dead_letter_completeness:
  assumes "sendEntries_loop extractFields this lines [] [] [] = (rej, surviving, tr)"
      and "deliver MOCHA_ENV net this surviving = (Inl err, tr')"
  shows "\<exists>envelope after.
           pipeline extractFields MOCHA_ENV net enqueue this lines =
             (Inl err, map Logger (tr @ tr') @ DeadLetter envelope # after)
         \<and> survivingRecords envelope = surviving
         \<and> surviving \<noteq> []
         \<and> (after = [] \<or> after = [EnqueueFailed])"
proof -
  from assms(2) have ne: "surviving \<noteq> []" by (rule deliver_nonempty)
  let ?env = "map SurvivingRecord surviving @ map RejectedLine rej"
  let ?after = "if enqueue ?env then [] else [EnqueueFailed]"
  have "pipeline extractFields MOCHA_ENV net enqueue this lines =
          (Inl err, map Logger (tr @ tr') @ DeadLetter ?env # ?after)"
    using assms ne by (simp add: pipeline_def deadLettering_def)
  moreover have "survivingRecords ?env = surviving"
    by (simp add: survivingRecords_append)
  ultimately show ?thesis using ne
    by (intro exI [of _ ?env] exI [of _ ?after]) simp
qed

theorem dead_letter_completeness_witness:
  "\<exists>envelope after.
     pipeline extractFieldsSpec False forbidden (\<lambda>envelope. True) (DataDogLogger opts0)
         [infoEvent, patternlessEvent] =
       (Inl (Error ''Failed to send logs with status 403: that went wrong''),
        map Logger ([Warn patternlessEvent]
           @ snd (deliver False forbidden (DataDogLogger opts0)
                    (List.map_filter (passing extractFieldsSpec (DataDogLogger opts0)) [infoEvent, patternlessEvent])))
          @ DeadLetter envelope # after)
   \<and> survivingRecords envelope =
       List.map_filter (passing extractFieldsSpec (DataDogLogger opts0)) [infoEvent, patternlessEvent]
   \<and> length (survivingRecords envelope) = 1"
proof -
  let ?lg = "DataDogLogger opts0"
  let ?lines = "[infoEvent, patternlessEvent]"
  let ?surviving = "List.map_filter (passing extractFieldsSpec ?lg) ?lines"
  have l: "sendEntries_loop extractFieldsSpec ?lg ?lines [] [] [] =
             ([patternlessEvent], ?surviving, [Warn patternlessEvent])"
    by code_simp
  have n: "length ?surviving = 1" by code_simp
  have "fst (deliver False forbidden ?lg ?surviving) =
          Inl (Error ''Failed to send logs with status 403: that went wrong'')"
    by code_simp
  then have d: "deliver False forbidden ?lg ?surviving =
          (Inl (Error ''Failed to send logs with status 403: that went wrong''),
           snd (deliver False forbidden ?lg ?surviving))"
    by (metis prod.collapse)
  from dead_letter_completeness [OF l d, of "\<lambda>envelope. True"] n show ?thesis by auto
qed

end
